theory Spec2Isabelle
  imports Main "HOL-Library.Char_ord" "HOL-Library.List_Lexorder" "HOL-Library.Product_Lexorder"
    "HOL-Library.Sublist" "HOL-Library.Multiset"
begin

section \<open>Texts\<close>

text \<open>
  A JavaScript string is modelled as a \<open>string\<close>: one \<open>char\<close> per UTF-16 code unit, for
  texts whose code units lie in the range 0..255. \<open>length\<close>, \<open>s[i]\<close>, \<open>slice\<close> and
  \<open>substring\<close> count code units, and so does the model.
\<close>

definition dquote :: char where "dquote = CHR 0x22"
definition squote :: char where "squote = CHR 0x27"
definition backslash :: char where "backslash = CHR 0x5C"
definition newline :: char where "newline = CHR 0x0A"
definition lbrace :: char where "lbrace = CHR 0x7B"
definition rbrace :: char where "rbrace = CHR 0x7D"

text \<open>\<^verbatim>\<open>s.substring(a, b)\<close>: both indices are clamped to the length and swapped when \<open>a > b\<close>.\<close>

definition substring :: "string \<Rightarrow> nat \<Rightarrow> nat \<Rightarrow> string" where
  "substring s a b =
     (let a' = min a (length s); b' = min b (length s);
          lo = min a' b'; hi = max a' b'
      in take (hi - lo) (drop lo s))"

text \<open>\<^verbatim>\<open>s.slice(0, n)\<close> for a non-negative \<open>n\<close>.\<close>

definition slice0 :: "string \<Rightarrow> nat \<Rightarrow> string" where
  "slice0 s n = take n s"

text \<open>\<^verbatim>\<open>s.split(c)\<close> for a one-character separator: the pieces between the separators, so
  one more piece than there are separators.\<close>

fun split :: "char \<Rightarrow> string \<Rightarrow> string list" where
  "split c [] = [[]]"
| "split c (x # xs) =
     (if x = c then [] # split c xs
      else (case split c xs of
              [] \<Rightarrow> [[x]]
            | w # ws \<Rightarrow> (x # w) # ws))"

text \<open>\<^verbatim>\<open>parts.join(' ')\<close>.\<close>

fun join :: "char \<Rightarrow> string list \<Rightarrow> string" where
  "join c [] = []"
| "join c [w] = w"
| "join c (w # v # ws) = w @ c # join c (v # ws)"

definition is_upper :: "char \<Rightarrow> bool" where
  "is_upper c = (CHR ''A'' \<le> c \<and> c \<le> CHR ''Z'')"

definition is_lower :: "char \<Rightarrow> bool" where
  "is_lower c = (CHR ''a'' \<le> c \<and> c \<le> CHR ''z'')"

definition is_digit :: "char \<Rightarrow> bool" where
  "is_digit c = (CHR ''0'' \<le> c \<and> c \<le> CHR ''9'')"

text \<open>\<^verbatim>\<open>s.toLowerCase()\<close> on code units 0..255: the ASCII capitals and the Latin-1 capitals
  (0xC0..0xDE without the multiplication sign 0xD7) move up by 0x20.\<close>

definition toLowerCase_char :: "char \<Rightarrow> char" where
  "toLowerCase_char c =
     (if is_upper c \<or> (CHR 0xC0 \<le> c \<and> c \<le> CHR 0xDE \<and> c \<noteq> CHR 0xD7)
      then char_of (of_char c + (32::nat)) else c)"

definition toLowerCase :: "string \<Rightarrow> string" where
  "toLowerCase s = map toLowerCase_char s"

section \<open>Regular expressions\<close>

text \<open>
  The fragment of JavaScript regular expressions that the four patterns of the indexer use:
  literals, character classes, greedy \<open>*\<close> and \<open>+\<close> over a character class, a greedy
  optional group, capturing groups, sequence, alternation and the word boundary \<open>\b\<close>.
\<close>

datatype regex =
    Lit string
  | Cls "char \<Rightarrow> bool"
  | Star "char \<Rightarrow> bool"
  | Plus "char \<Rightarrow> bool"
  | Opt regex
  | Grp nat regex
  | Seq regex regex
  | Alt regex regex
  | WordB

text \<open>\<open>\w\<close>, \<open>\s\<close> and \<open>.\<close> on code units 0..255.\<close>

definition word_char :: "char \<Rightarrow> bool" where
  "word_char c = (is_lower c \<or> is_upper c \<or> is_digit c \<or> c = CHR ''_'')"

definition space_char :: "char \<Rightarrow> bool" where
  "space_char c = (c \<in> set [CHR 0x09, CHR 0x0A, CHR 0x0B, CHR 0x0C, CHR 0x0D, CHR 0x20, CHR 0xA0])"

definition dot_char :: "char \<Rightarrow> bool" where
  "dot_char c = (c \<noteq> CHR 0x0A \<and> c \<noteq> CHR 0x0D)"

text \<open>\<open>\b\<close> holds at offset \<open>i\<close> when exactly one of the characters before and at \<open>i\<close> is a
  word character; the positions outside the text count as non-word.\<close>

definition word_at :: "string \<Rightarrow> nat \<Rightarrow> bool" where
  "word_at s i = (i < length s \<and> word_char (s ! i))"

definition word_boundary :: "string \<Rightarrow> nat \<Rightarrow> bool" where
  "word_boundary s i = ((i > 0 \<and> word_at s (i - 1)) \<noteq> word_at s i)"

type_synonym captures = "nat \<rightharpoonup> string"

text \<open>
  \<open>rmatch r s i c\<close> lists every way \<open>r\<close> can match \<open>s\<close> from offset \<open>i\<close>, as the end offset
  and the captures, in the order in which a backtracking matcher tries them: the first
  alternative before the second, the longest repetition before the shorter ones, the
  optional group present before absent. The head of the list is the match that is found.
\<close>

fun rmatch :: "regex \<Rightarrow> string \<Rightarrow> nat \<Rightarrow> captures \<Rightarrow> (nat \<times> captures) list" where
  "rmatch (Lit l) s i c = (if take (length l) (drop i s) = l then [(i + length l, c)] else [])"
| "rmatch (Cls P) s i c = (if i < length s \<and> P (s ! i) then [(Suc i, c)] else [])"
| "rmatch (Star P) s i c =
     map (\<lambda>k. (i + k, c)) (rev [0 ..< Suc (length (takeWhile P (drop i s)))])"
| "rmatch (Plus P) s i c =
     map (\<lambda>k. (i + k, c)) (rev [1 ..< Suc (length (takeWhile P (drop i s)))])"
| "rmatch (Opt r) s i c = rmatch r s i c @ [(i, c)]"
| "rmatch (Grp n r) s i c =
     map (\<lambda>(j, c'). (j, c'(n \<mapsto> take (j - i) (drop i s)))) (rmatch r s i c)"
| "rmatch (Seq r1 r2) s i c = concat (map (\<lambda>(j, c'). rmatch r2 s j c') (rmatch r1 s i c))"
| "rmatch (Alt r1 r2) s i c = rmatch r1 s i c @ rmatch r2 s i c"
| "rmatch WordB s i c = (if word_boundary s i then [(i, c)] else [])"

record rx_match =
  index :: nat
  lastIndex :: nat
  groups :: captures

text \<open>
  \<^verbatim>\<open>regex.exec(s)\<close> of a global regex whose \<open>lastIndex\<close> is \<open>li\<close>: the match at the least
  offset from \<open>li\<close> on where the regex matches; the new \<open>lastIndex\<close> is the end of the
  match. No match (also when \<open>li\<close> is beyond the text) is \<open>None\<close>, JavaScript's \<open>null\<close>.
\<close>

definition exec :: "regex \<Rightarrow> string \<Rightarrow> nat \<Rightarrow> rx_match option" where
  "exec r s li =
     (case find (\<lambda>p. rmatch r s p Map.empty \<noteq> []) [li ..< Suc (length s)] of
        None \<Rightarrow> None
      | Some p \<Rightarrow>
          (case rmatch r s p Map.empty of
             [] \<Rightarrow> None
           | (e, c) # _ \<Rightarrow> Some \<lparr>index = p, lastIndex = e, groups = c\<rparr>))"

text \<open>\<^verbatim>\<open>a || b\<close> on capture values: \<open>undefined\<close> and the empty string are falsy.\<close>

definition truthy :: "string option \<Rightarrow> bool" where
  "truthy v = (case v of None \<Rightarrow> False | Some x \<Rightarrow> x \<noteq> [])"

definition js_or :: "string option \<Rightarrow> string option \<Rightarrow> string option" where
  "js_or a b = (if truthy a then a else b)"

text \<open>The least number of characters a match of the regex consumes.\<close>

fun min_len :: "regex \<Rightarrow> nat" where
  "min_len (Lit l) = length l"
| "min_len (Cls P) = 1"
| "min_len (Star P) = 0"
| "min_len (Plus P) = 1"
| "min_len (Opt r) = 0"
| "min_len (Grp n r) = min_len r"
| "min_len (Seq r1 r2) = min_len r1 + min_len r2"
| "min_len (Alt r1 r2) = min (min_len r1) (min_len r2)"
| "min_len WordB = 0"

lemma rmatch_min_len:
  "(e, c') \<in> set (rmatch r s i c) \<Longrightarrow> i + min_len r \<le> e"
proof (induction r arbitrary: i c e c')
  case (Seq r1 r2)
  then obtain j d where 1: "(j, d) \<in> set (rmatch r1 s i c)" and 2: "(e, c') \<in> set (rmatch r2 s j d)"
    by auto
  from Seq.IH(1)[OF 1] Seq.IH(2)[OF 2] show ?case by simp
next
  case (Alt r1 r2)
  then show ?case by fastforce
next
  case (Opt r)
  then show ?case by fastforce
next
  case (Grp n r)
  then show ?case by fastforce
qed (auto split: if_splits)

lemma exec_index:
  assumes "exec r s li = Some m"
  shows "li \<le> index m" and "index m \<le> length s" and "index m + min_len r \<le> lastIndex m"
proof -
  from assms obtain p e c rest where f: "find (\<lambda>p. rmatch r s p Map.empty \<noteq> []) [li ..< Suc (length s)] = Some p"
    and r: "rmatch r s p Map.empty = (e, c) # rest" and m: "m = \<lparr>index = p, lastIndex = e, groups = c\<rparr>"
    by (auto simp: exec_def split: option.splits list.splits)
  from f obtain k where "k < length [li ..< Suc (length s)]" and "[li ..< Suc (length s)] ! k = p"
    unfolding find_Some_iff by blast
  then have "p \<in> set [li ..< Suc (length s)]"
    using nth_mem by metis
  then show "li \<le> index m" and "index m \<le> length s" using m by auto
  from r have "(e, c) \<in> set (rmatch r s p Map.empty)" by simp
  from rmatch_min_len[OF this] show "index m + min_len r \<le> lastIndex m" using m by simp
qed


text \<open>
  \<^verbatim>\<open>s.match(regex)\<close> of a global regex: the texts of all matches from left to right, each
  search starting where the last match ended (one further after an empty match);
  \<open>null\<close> when there is none.
\<close>

function match_all :: "regex \<Rightarrow> string \<Rightarrow> nat \<Rightarrow> string list" where
  "match_all r s li =
     (case exec r s li of
        None \<Rightarrow> []
      | Some m \<Rightarrow>
          substring s (index m) (lastIndex m)
          # match_all r s (if lastIndex m = index m then Suc (lastIndex m) else lastIndex m))"
  by pat_completeness auto
termination
proof (relation "measure (\<lambda>(r, s, li). Suc (length s) - li)")
  fix r s li m
  assume e: "exec r s li = Some m"
  from exec_index[OF e]
  show "((r, s, if lastIndex m = index m then Suc (lastIndex m) else lastIndex m), (r, s, li))
          \<in> measure (\<lambda>(r, s, li). Suc (length s) - li)"
    by auto
qed simp

declare match_all.simps [simp del]

definition match_g :: "regex \<Rightarrow> string \<Rightarrow> string list option" where
  "match_g r s = (case match_all r s 0 of [] \<Rightarrow> None | w # ws \<Rightarrow> Some (w # ws))"

fun seqs :: "regex list \<Rightarrow> regex" where
  "seqs [] = Lit []"
| "seqs [r] = r"
| "seqs (r # rs) = Seq r (seqs rs)"

section \<open>IndexManager: extraction\<close>

subsection \<open>findClosingBrace\<close>

text \<open>
  The \<open>for\<close> loop of \<open>findClosingBrace\<close>, with its variables \<open>i\<close>, \<open>openBraces\<close>,
  \<open>inString\<close> and \<open>stringChar\<close> (\<open>None\<close> is the initial \<open>''\<close>) as arguments.
  \<open>content[i - 1]\<close> at \<open>i = 0\<close> is \<open>undefined\<close>, which differs from the backslash.
\<close>

function findClosingBrace_loop :: "string \<Rightarrow> nat \<Rightarrow> int \<Rightarrow> bool \<Rightarrow> char option \<Rightarrow> nat" where
  "findClosingBrace_loop content i openBraces inString stringChar =
     (if i < length content then
        (let char = content ! i in
         if inString then
           (if Some char = stringChar \<and> \<not> (i > 0 \<and> content ! (i - 1) = backslash)
            then findClosingBrace_loop content (Suc i) openBraces False stringChar
            else findClosingBrace_loop content (Suc i) openBraces inString stringChar)
         else if char = dquote \<or> char = squote then
           findClosingBrace_loop content (Suc i) openBraces True (Some char)
         else if char = lbrace then
           findClosingBrace_loop content (Suc i) (openBraces + 1) inString stringChar
         else if char = rbrace then
           (if openBraces - 1 = 0 then Suc i
            else findClosingBrace_loop content (Suc i) (openBraces - 1) inString stringChar)
         else findClosingBrace_loop content (Suc i) openBraces inString stringChar)
      else length content)"
  by pat_completeness auto
termination
  by (relation "measure (\<lambda>(content, i, openBraces, inString, stringChar). length content - i)") auto

declare findClosingBrace_loop.simps [simp del]

definition findClosingBrace :: "string \<Rightarrow> nat \<Rightarrow> nat" where
  "findClosingBrace content startIndex = findClosingBrace_loop content startIndex 0 False None"

subsection \<open>extractKeywords\<close>

text \<open>\<^verbatim>\<open>/\b[a-zA-Z_]\w*\b/g\<close>\<close>

definition keywordRegex :: regex where
  "keywordRegex =
     seqs [WordB, Cls (\<lambda>c. is_lower c \<or> is_upper c \<or> c = CHR ''_''), Star word_char, WordB]"

definition excluded :: "string list" where
  "excluded = [''const'', ''let'', ''var'', ''if'', ''else'', ''for'', ''while'', ''return'',
               ''function'', ''class'']"

text \<open>\<^verbatim>\<open>keywords.add(k)\<close> on a \<open>Set\<close>, which keeps its members in insertion order.\<close>

definition set_add :: "string list \<Rightarrow> string \<Rightarrow> string list" where
  "set_add ks k = (if k \<in> set ks then ks else ks @ [k])"

text \<open>The \<open>Set\<close> that \<open>extractKeywords\<close> builds, as \<open>Array.from\<close> lists it.\<close>

definition keywordSet :: "string \<Rightarrow> string list" where
  "keywordSet code =
     (let words = (case match_g keywordRegex code of None \<Rightarrow> [] | Some ws \<Rightarrow> ws)
      in fold (\<lambda>word ks.
                 if word \<notin> set excluded \<and> length word > 2 then set_add ks (toLowerCase word)
                 else ks)
              words [])"

definition extractKeywords :: "string \<Rightarrow> string" where
  "extractKeywords code = join CHR '' '' (keywordSet code)"

subsection \<open>extractFunctions, extractClasses, extractPatterns\<close>

text \<open>The objects that the extractors push: \<open>{name, code, lineStart, lineEnd, keywords}\<close>.\<close>

record code_unit =
  name :: string
  code :: string
  lineStart :: nat
  lineEnd :: nat
  keywords_str :: string

text \<open>\<^verbatim>\<open>/(async\s+)?function\s+(\w+)|const\s+(\w+)\s*=\s*(async\s+)?\(|(\w+)\s*\([^)]*\)\s*{/g\<close>\<close>

definition functionRegex :: regex where
  "functionRegex =
     Alt (seqs [Opt (Grp 1 (seqs [Lit ''async'', Plus space_char])),
                Lit ''function'', Plus space_char, Grp 2 (Plus word_char)])
    (Alt (seqs [Lit ''const'', Plus space_char, Grp 3 (Plus word_char), Star space_char,
                Lit ''='', Star space_char,
                Opt (Grp 4 (seqs [Lit ''async'', Plus space_char])), Lit ''(''])
         (seqs [Grp 5 (Plus word_char), Star space_char, Lit ''('',
                Star (\<lambda>c. c \<noteq> CHR '')''), Lit '')'', Star space_char, Lit ''{'']))"

text \<open>\<^verbatim>\<open>/class\s+(\w+)/g\<close>\<close>

definition classRegex :: regex where
  "classRegex = seqs [Lit ''class'', Plus space_char, Grp 1 (Plus word_char)]"

text \<open>\<^verbatim>\<open>/import\s+.+\s+from\s+['"](.+)['"]/g\<close>\<close>

definition importRegex :: regex where
  "importRegex =
     seqs [Lit ''import'', Plus space_char, Plus dot_char, Plus space_char, Lit ''from'',
           Plus space_char, Cls (\<lambda>c. c = squote \<or> c = dquote), Grp 1 (Plus dot_char),
           Cls (\<lambda>c. c = squote \<or> c = dquote)]"

text \<open>
  What both extractors compute for a match at offset \<open>idx\<close> with name \<open>n\<close>: the starting
  line, the extent by \<open>findClosingBrace\<close>, the code, the ending line and the keywords.
\<close>

definition unit_at :: "string \<Rightarrow> nat \<Rightarrow> string \<Rightarrow> code_unit" where
  "unit_at content idx n =
     (let lineStart' = length (split newline (substring content 0 idx));
          endIndex = findClosingBrace content idx;
          code' = substring content idx endIndex;
          lineEnd' = lineStart' + length (split newline code')
      in \<lparr>name = n, code = code', lineStart = lineStart', lineEnd = lineEnd',
          keywords_str = extractKeywords code'\<rparr>)"

lemma functionRegex_min_len: "0 < min_len functionRegex"
  by (simp add: functionRegex_def)

lemma classRegex_min_len: "0 < min_len classRegex"
  by (simp add: classRegex_def)

lemma importRegex_min_len: "0 < min_len importRegex"
  by (simp add: importRegex_def)

text \<open>The \<open>while\<close> loop of \<open>extractFunctions\<close>; \<open>li\<close> is the \<open>lastIndex\<close> of the regex.\<close>

function extractFunctions_loop :: "string \<Rightarrow> nat \<Rightarrow> code_unit list" where
  "extractFunctions_loop content li =
     (case exec functionRegex content li of
        None \<Rightarrow> []
      | Some m \<Rightarrow>
          (case js_or (groups m 2) (js_or (groups m 3) (groups m 5)) of
             None \<Rightarrow> []
           | Some n \<Rightarrow> if n = [] then [] else [unit_at content (index m) n])
          @ extractFunctions_loop content (lastIndex m))"
  by pat_completeness auto
termination
proof (relation "measure (\<lambda>(content, li). Suc (length content) - li)")
  fix content li m
  assume e: "exec functionRegex content li = Some m"
  from exec_index[OF e] functionRegex_min_len
  show "((content, lastIndex m), (content, li)) \<in> measure (\<lambda>(content, li). Suc (length content) - li)"
    by auto
qed simp

declare extractFunctions_loop.simps [simp del]

definition extractFunctions :: "string \<Rightarrow> code_unit list" where
  "extractFunctions content = extractFunctions_loop content 0"

function extractClasses_loop :: "string \<Rightarrow> nat \<Rightarrow> code_unit list" where
  "extractClasses_loop content li =
     (case exec classRegex content li of
        None \<Rightarrow> []
      | Some m \<Rightarrow>
          (case groups m 1 of
             None \<Rightarrow> []
           | Some n \<Rightarrow> [unit_at content (index m) n])
          @ extractClasses_loop content (lastIndex m))"
  by pat_completeness auto
termination
proof (relation "measure (\<lambda>(content, li). Suc (length content) - li)")
  fix content li m
  assume e: "exec classRegex content li = Some m"
  from exec_index[OF e] classRegex_min_len
  show "((content, lastIndex m), (content, li)) \<in> measure (\<lambda>(content, li). Suc (length content) - li)"
    by auto
qed simp

declare extractClasses_loop.simps [simp del]

definition extractClasses :: "string \<Rightarrow> code_unit list" where
  "extractClasses content = extractClasses_loop content 0"

function extractPatterns_loop :: "string \<Rightarrow> nat \<Rightarrow> string list" where
  "extractPatterns_loop content li =
     (case exec importRegex content li of
        None \<Rightarrow> []
      | Some m \<Rightarrow>
          (''import:'' @ (case groups m 1 of None \<Rightarrow> ''undefined'' | Some g \<Rightarrow> g))
          # extractPatterns_loop content (lastIndex m))"
  by pat_completeness auto
termination
proof (relation "measure (\<lambda>(content, li). Suc (length content) - li)")
  fix content li m
  assume e: "exec importRegex content li = Some m"
  from exec_index[OF e] importRegex_min_len
  show "((content, lastIndex m), (content, li)) \<in> measure (\<lambda>(content, li). Suc (length content) - li)"
    by auto
qed simp

declare extractPatterns_loop.simps [simp del]

definition extractPatterns :: "string \<Rightarrow> string list" where
  "extractPatterns content = extractPatterns_loop content 0"


section \<open>Database\<close>

text \<open>
  The two tables of the SQLite store, each a list of rows in insertion order, with the
  \<open>AUTOINCREMENT\<close> counters of their \<open>id\<close> columns. \<open>foreign_keys\<close> is the store's
  setting for enforcing \<open>FOREIGN KEY (project_id) REFERENCES projects(id)\<close>; it is fixed
  by the SQLite build and the connection, not by the repository's code, so it is a
  parameter of the state.
\<close>

record project =
  p_id :: nat
  p_name :: string
  p_path :: string
  p_file_count :: nat
  p_indexed_at :: string

record code_entry =
  ce_id :: nat
  ce_project_id :: nat
  ce_file_path :: string
  ce_name :: string
  ce_type :: string
  ce_code :: string
  ce_snippet :: string
  ce_line_start :: nat
  ce_line_end :: nat
  ce_keywords :: string

record database =
  projects :: "project list"
  code_entries :: "code_entry list"
  projects_seq :: nat
  code_entries_seq :: nat
  foreign_keys :: bool

datatype error = ProjectNotFound string | CodeEntryNotFound | ForeignKeyConstraintFailed

text \<open>An \<open>AUTOINCREMENT\<close> id: one more than the largest id the table has ever held.\<close>

definition next_id :: "nat \<Rightarrow> nat list \<Rightarrow> nat" where
  "next_id seq ids = Suc (fold max ids seq)"

text \<open>
  \<^verbatim>\<open>INSERT OR REPLACE INTO projects (name, path, indexed_at) VALUES (?, ?, datetime('now'))\<close>:
  \<open>name\<close> is \<open>UNIQUE\<close>, so the rows of that name are deleted and a new row is inserted; no
  \<open>id\<close> is given, so the new row gets a fresh one, and \<open>file_count\<close> its default 0. With
  foreign keys enforced the statement fails, and changes nothing, when a code entry is
  left referring to a deleted row. The result is \<open>lastInsertRowid\<close>.
\<close>

definition addProject :: "string \<Rightarrow> string \<Rightarrow> string \<Rightarrow> database \<Rightarrow> (error \<times> database) + (nat \<times> database)" where
  "addProject name' path now db =
     (let replaced = filter (\<lambda>p. p_name p = name') (projects db);
          new_id = next_id (projects_seq db) (map p_id (projects db));
          projects' = filter (\<lambda>p. p_name p \<noteq> name') (projects db)
                      @ [\<lparr>p_id = new_id, p_name = name', p_path = path, p_file_count = 0,
                          p_indexed_at = now\<rparr>]
      in if foreign_keys db
            \<and> list_ex (\<lambda>e. ce_project_id e \<in> set (map p_id replaced)
                            \<and> ce_project_id e \<notin> set (map p_id projects'))
                       (code_entries db)
         then Inl (ForeignKeyConstraintFailed, db)
         else Inr (new_id, db\<lparr>projects := projects', projects_seq := new_id\<rparr>))"

text \<open>\<^verbatim>\<open>UPDATE projects SET file_count = ? WHERE id = ?\<close>\<close>

definition updateProjectFileCount :: "nat \<Rightarrow> nat \<Rightarrow> database \<Rightarrow> database" where
  "updateProjectFileCount projectId count' db =
     db\<lparr>projects := map (\<lambda>p. if p_id p = projectId then p\<lparr>p_file_count := count'\<rparr> else p)
                         (projects db)\<rparr>"

text \<open>
  \<^verbatim>\<open>INSERT INTO code_entries (project_id, ...) VALUES (...)\<close>: the entry's own \<open>ce_id\<close> is not
  inserted (the parameter's type omits it); the row gets a fresh id.
\<close>

definition addCodeEntry :: "code_entry \<Rightarrow> database \<Rightarrow> (error \<times> database) + (nat \<times> database)" where
  "addCodeEntry entry db =
     (let new_id = next_id (code_entries_seq db) (map ce_id (code_entries db))
      in if foreign_keys db \<and> ce_project_id entry \<notin> set (map p_id (projects db))
         then Inl (ForeignKeyConstraintFailed, db)
         else Inr (new_id, db\<lparr>code_entries := code_entries db @ [entry\<lparr>ce_id := new_id\<rparr>],
                               code_entries_seq := new_id\<rparr>))"

text \<open>\<^verbatim>\<open>SELECT * FROM projects WHERE name = ?\<close>, first row.\<close>

definition getProject :: "string \<Rightarrow> database \<Rightarrow> project option" where
  "getProject name' db = find (\<lambda>p. p_name p = name') (projects db)"

text \<open>\<^verbatim>\<open>SELECT * FROM code_entries WHERE id = ?\<close>, first row.\<close>

definition getCodeEntry :: "nat \<Rightarrow> database \<Rightarrow> code_entry option" where
  "getCodeEntry id' db = find (\<lambda>e. ce_id e = id') (code_entries db)"

text \<open>\<^verbatim>\<open>DELETE FROM code_entries WHERE project_id = ?\<close>\<close>

definition clearProjectEntries :: "nat \<Rightarrow> database \<Rightarrow> database" where
  "clearProjectEntries projectId db =
     db\<lparr>code_entries := filter (\<lambda>e. ce_project_id e \<noteq> projectId) (code_entries db)\<rparr>"

text \<open>The entries go first, then the project: no entry is left referring to the deleted row.\<close>

definition removeProject :: "string \<Rightarrow> database \<Rightarrow> (error \<times> database) + database" where
  "removeProject name' db =
     (case getProject name' db of
        None \<Rightarrow> Inl (ProjectNotFound name', db)
      | Some project \<Rightarrow>
          Inr (db\<lparr>code_entries := filter (\<lambda>e. ce_project_id e \<noteq> p_id project) (code_entries db),
                  projects := filter (\<lambda>p. p_id p \<noteq> p_id project) (projects db)\<rparr>))"

subsection \<open>searchCode\<close>

text \<open>
  SQLite's \<open>LIKE\<close>. The comparison reads the pattern and the text as NUL-terminated: each
  ends before its first NUL character. \<open>%\<close> in the pattern stands for any run of
  characters, \<open>_\<close> for any one character, and every other character for itself, the
  ASCII letters without regard to case. The statement gives no \<open>ESCAPE\<close> character.
\<close>

definition ascii_lower :: "char \<Rightarrow> char" where
  "ascii_lower c = (if is_upper c then char_of (of_char c + (32::nat)) else c)"

definition c_string :: "string \<Rightarrow> string" where
  "c_string s = takeWhile (\<lambda>c. c \<noteq> CHR 0x00) s"

fun like_compare :: "string \<Rightarrow> string \<Rightarrow> bool" where
  "like_compare [] s = (s = [])"
| "like_compare (p # ps) s =
     (if p = CHR ''%'' then
        (like_compare ps s \<or> (case s of [] \<Rightarrow> False | c # s' \<Rightarrow> like_compare (p # ps) s'))
      else
        (case s of
           [] \<Rightarrow> False
         | c # s' \<Rightarrow> (p = CHR ''_'' \<or> ascii_lower p = ascii_lower c) \<and> like_compare ps s'))"

definition like :: "string \<Rightarrow> string \<Rightarrow> bool" where
  "like pat s = like_compare (c_string pat) (c_string s)"

record search_options =
  opt_project :: "string option"
  opt_type :: "string option"
  opt_limit :: int

text \<open>A row of the result: the entry (\<open>ce.*\<close>), \<open>projectName\<close> and \<open>relevance\<close>.\<close>

record search_row =
  sr_entry :: code_entry
  sr_projectName :: string
  sr_relevance :: int

text \<open>The \<open>CASE\<close> expression of the query, with its parameter \<open>%query%\<close>.\<close>

definition relevance_of :: "string \<Rightarrow> code_entry \<Rightarrow> int" where
  "relevance_of query ce =
     (let pat = ''%'' @ query @ ''%''
      in if like pat (ce_name ce) then 100
         else if like pat (ce_keywords ce) then 50
         else if like pat (ce_snippet ce) then 25
         else 10)"

text \<open>The \<open>WHERE\<close> clause: the three \<open>LIKE\<close>s, and the two filters when their option is
  truthy (given and not empty).\<close>

definition where_clause :: "string \<Rightarrow> search_options \<Rightarrow> code_entry \<Rightarrow> project \<Rightarrow> bool" where
  "where_clause query options ce p =
     (let pat = ''%'' @ query @ ''%''
      in (like pat (ce_name ce) \<or> like pat (ce_keywords ce) \<or> like pat (ce_snippet ce))
         \<and> (case opt_project options of
               None \<Rightarrow> True
             | Some n \<Rightarrow> n = [] \<or> p_name p = n)
         \<and> (case opt_type options of
               None \<Rightarrow> True
             | Some t \<Rightarrow> t = [] \<or> ce_type ce = t))"

text \<open>\<open>code_entries ce JOIN projects p ON ce.project_id = p.id\<close>\<close>

definition joined :: "database \<Rightarrow> (code_entry \<times> project) list" where
  "joined db =
     concat (map (\<lambda>ce. map (\<lambda>p. (ce, p)) (filter (\<lambda>p. p_id p = ce_project_id ce) (projects db)))
                 (code_entries db))"

text \<open>\<open>ORDER BY relevance DESC, ce.name\<close>: the sort key; names compare as texts, character
  by character (the \<open>BINARY\<close> collation).\<close>

definition order_key :: "search_row \<Rightarrow> int \<times> string" where
  "order_key r = (- sr_relevance r, ce_name (sr_entry r))"

text \<open>
  The query of \<open>searchCode\<close>. The model describes it for a limit that SQLite reads as a
  64-bit integer and a pattern \<open>%query%\<close> of at most 50000 bytes, the store's bound on
  \<open>LIKE\<close> patterns; beyond these bounds the store can raise an error instead of giving
  rows. The order among rows that agree on both sort keys is not fixed by SQL; the model
  keeps them in table order. \<open>LIMIT\<close> with a negative number is no limit.
\<close>

definition searchCode :: "string \<Rightarrow> search_options \<Rightarrow> database \<Rightarrow> search_row list" where
  "searchCode query options db =
     (let rows = map (\<lambda>(ce, p). \<lparr>sr_entry = ce, sr_projectName = p_name p,
                                  sr_relevance = relevance_of query ce\<rparr>)
                     (filter (\<lambda>(ce, p). where_clause query options ce p) (joined db));
          ordered = sort_key order_key rows
      in if opt_limit options < 0 then ordered else take (nat (opt_limit options)) ordered)"


section \<open>IndexManager: indexing\<close>

text \<open>
  The collaborators of \<open>indexProject\<close> outside the repository: \<open>basename\<close> and \<open>join\<close> of
  the path library, the glob search \<open>fg(patterns, {cwd, ignore})\<close>, \<open>readFileSync\<close>, and the
  store's clock \<open>datetime('now')\<close>. Reading is taken to succeed.
\<close>

record env =
  env_basename :: "string \<Rightarrow> string"
  env_join :: "string \<Rightarrow> string \<Rightarrow> string"
  env_fg :: "string list \<Rightarrow> string \<Rightarrow> string list \<Rightarrow> string list"
  env_readFileSync :: "string \<Rightarrow> string"
  env_now :: string

record index_options =
  opt_name :: "string option"
  opt_recursive :: "bool option"
  opt_exclude :: "string option"

record index_result =
  filesIndexed :: nat
  functionsFound :: nat
  classesFound :: nat
  patternsExtracted :: nat

text \<open>The object that \<open>indexProject\<close> hands to \<open>addCodeEntry\<close> for an extracted unit; \<open>type'\<close>
  is \<open>'function'\<close> or \<open>'class'\<close>. It has no id yet.\<close>

definition entry_of :: "string \<Rightarrow> nat \<Rightarrow> string \<Rightarrow> code_unit \<Rightarrow> code_entry" where
  "entry_of type' projectId file u =
     \<lparr>ce_id = 0, ce_project_id = projectId, ce_file_path = file, ce_name = name u,
      ce_type = type', ce_code = code u, ce_snippet = slice0 (code u) 200,
      ce_line_start = lineStart u, ce_line_end = lineEnd u, ce_keywords = keywords_str u\<rparr>"

text \<open>The two \<open>forEach\<close> loops over the extracted functions and classes: each unit is
  added and the counter goes up by one; an error of the store ends the loop.\<close>

fun addUnits :: "string \<Rightarrow> nat \<Rightarrow> string \<Rightarrow> code_unit list \<Rightarrow> database \<times> nat
                   \<Rightarrow> (error \<times> database) + (database \<times> nat)" where
  "addUnits type' projectId file [] (db, found) = Inr (db, found)"
| "addUnits type' projectId file (u # us) (db, found) =
     (case addCodeEntry (entry_of type' projectId file u) db of
        Inl err \<Rightarrow> Inl err
      | Inr (_, db') \<Rightarrow> addUnits type' projectId file us (db', Suc found))"

text \<open>The loop over the files.\<close>

fun indexFiles :: "env \<Rightarrow> string \<Rightarrow> nat \<Rightarrow> string list \<Rightarrow> database \<times> nat \<times> nat \<times> nat
                     \<Rightarrow> (error \<times> database) + (database \<times> nat \<times> nat \<times> nat)" where
  "indexFiles ev path projectId [] st = Inr st"
| "indexFiles ev path projectId (file # files) (db, functionsFound', classesFound', patternsExtracted') =
     (let fullPath = env_join ev path file;
          content = env_readFileSync ev fullPath
      in case addUnits ''function'' projectId file (extractFunctions content) (db, functionsFound') of
           Inl err \<Rightarrow> Inl err
         | Inr (db1, ff) \<Rightarrow>
             (case addUnits ''class'' projectId file (extractClasses content) (db1, classesFound') of
                Inl err \<Rightarrow> Inl err
              | Inr (db2, cf) \<Rightarrow>
                  indexFiles ev path projectId files
                    (db2, ff, cf, patternsExtracted' + length (extractPatterns content))))"

definition file_patterns :: "string list" where
  "file_patterns = [''**/*.ts'', ''**/*.tsx'', ''**/*.js'', ''**/*.jsx'', ''**/*.py'', ''**/*.go'',
                    ''**/*.rs'', ''**/*.java'']"

definition indexProject :: "env \<Rightarrow> string \<Rightarrow> index_options \<Rightarrow> database
                              \<Rightarrow> (error \<times> database) + (index_result \<times> database)" where
  "indexProject ev path options db =
     (let projectName = (case opt_name options of
                           None \<Rightarrow> env_basename ev path
                         | Some n \<Rightarrow> if n = [] then env_basename ev path else n)
      in case addProject projectName path (env_now ev) db of
           Inl err \<Rightarrow> Inl err
         | Inr (projectId, db1) \<Rightarrow>
             (let db2 = clearProjectEntries projectId db1;
                  excludePatterns =
                    [''**/node_modules/**'', ''**/dist/**'', ''**/build/**'', ''**/.git/**'',
                     ''**/coverage/**'']
                    @ (case opt_exclude options of
                         None \<Rightarrow> []
                       | Some x \<Rightarrow> if x = [] then [] else split CHR '','' x);
                  files = env_fg ev file_patterns path excludePatterns
              in case indexFiles ev path projectId files (db2, 0, 0, 0) of
                   Inl err \<Rightarrow> Inl err
                 | Inr (db3, ff, cf, pe) \<Rightarrow>
                     Inr (\<lparr>filesIndexed = length files, functionsFound = ff, classesFound = cf,
                           patternsExtracted = pe\<rparr>,
                          updateProjectFileCount projectId (length files) db3)))"

definition updateProject :: "env \<Rightarrow> string \<Rightarrow> database \<Rightarrow> (error \<times> database) + database" where
  "updateProject ev projectName db =
     (case getProject projectName db of
        None \<Rightarrow> Inl (ProjectNotFound projectName, db)
      | Some project \<Rightarrow>
          (case indexProject ev (p_path project)
                  \<lparr>opt_name = Some projectName, opt_recursive = None, opt_exclude = None\<rparr> db of
             Inl err \<Rightarrow> Inl err
           | Inr (_, db') \<Rightarrow> Inr db'))"

section \<open>QueryManager\<close>

text \<open>\<open>getCode\<close> reads the store and does not change it.\<close>

definition getCode :: "nat \<Rightarrow> database \<Rightarrow> error + string" where
  "getCode id' db =
     (case getCodeEntry id' db of
        None \<Rightarrow> Inl CodeEntryNotFound
      | Some e \<Rightarrow> Inr (ce_code e))"

section \<open>Brace matching in the words of the specification\<close>

text \<open>
  The specification enters string-literal mode on an unescaped quote character (\<open>'\<close> or
  \<open>"\<close>) and leaves it on an unescaped quote of the same kind. A backslash escapes the
  character after it, so a character is escaped when an odd number of backslashes stand
  directly before it; the backslashes are counted within the scanned text, from \<open>start\<close>
  on.
\<close>

definition backslashes_before :: "string \<Rightarrow> nat \<Rightarrow> nat \<Rightarrow> nat" where
  "backslashes_before content start i =
     length (takeWhile (\<lambda>c. c = backslash) (rev (take (i - start) (drop start content))))"

definition escaped :: "string \<Rightarrow> nat \<Rightarrow> nat \<Rightarrow> bool" where
  "escaped content start i = odd (backslashes_before content start i)"

text \<open>
  \<open>string_mode content start i\<close> is the mode in which the character at offset \<open>i\<close> is
  read by a scan that starts at \<open>start\<close>: the quote character of the literal that the
  offset lies in, and \<open>None\<close> outside a literal. The opening quote itself is read outside,
  the closing quote inside.
\<close>

fun string_mode :: "string \<Rightarrow> nat \<Rightarrow> nat \<Rightarrow> char option" where
  "string_mode content start 0 = None"
| "string_mode content start (Suc i) =
     (if Suc i \<le> start then None
      else (case string_mode content start i of
              Some q \<Rightarrow>
                if content ! i = q \<and> \<not> escaped content start i then None
                else Some q
            | None \<Rightarrow>
                if (content ! i = dquote \<or> content ! i = squote) \<and> \<not> escaped content start i
                then Some (content ! i)
                else None))"

text \<open>The nesting depth before offset \<open>i\<close>: the opening braces minus the closing braces
  among the characters from \<open>start\<close> on that are read outside a literal.\<close>

definition brace_count :: "char \<Rightarrow> string \<Rightarrow> nat \<Rightarrow> nat \<Rightarrow> nat" where
  "brace_count b content start i =
     length (filter (\<lambda>j. string_mode content start j = None \<and> content ! j = b) [start ..< i])"

definition nesting_depth :: "string \<Rightarrow> nat \<Rightarrow> nat \<Rightarrow> int" where
  "nesting_depth content start i =
     int (brace_count lbrace content start i) - int (brace_count rbrace content start i)"

text \<open>Offset \<open>j\<close> holds a closing brace, outside a literal, that brings the depth to zero;
  the extent ends right after the first such offset, and at the end of the text when
  there is none.\<close>

definition closing_brace :: "string \<Rightarrow> nat \<Rightarrow> nat \<Rightarrow> bool" where
  "closing_brace content start j =
     (string_mode content start j = None \<and> content ! j = rbrace
      \<and> nesting_depth content start (Suc j) = 0)"

definition body_extent :: "string \<Rightarrow> nat \<Rightarrow> nat" where
  "body_extent content start =
     (case find (closing_brace content start) [start ..< length content] of
        None \<Rightarrow> length content
      | Some j \<Rightarrow> Suc j)"

text \<open>A function whose body holds the string literal \<open>"\\"\<close>, an escaped backslash, and
  after it the string literal \<open>"}"\<close>: the text \<open>function f() { a("\\", "}") }\<close>.\<close>

definition cut_text :: string where
  "cut_text = ''function f() { a('' @ [dquote, backslash, backslash, dquote] @ '', ''
              @ [dquote, rbrace, dquote] @ '') }''"

section \<open>Sample inputs\<close>

text \<open>An empty store, and a project directory \<open>/w/p\<close> that holds the one file \<open>a.js\<close>.\<close>

definition empty_db :: "bool \<Rightarrow> database" where
  "empty_db fk = \<lparr>projects = [], code_entries = [], projects_seq = 0, code_entries_seq = 0,
                   foreign_keys = fk\<rparr>"

definition sample_env :: "string \<Rightarrow> env" where
  "sample_env content =
     \<lparr>env_basename = (\<lambda>path. ''p''),
      env_join = (\<lambda>a b. a @ ''/'' @ b),
      env_fg = (\<lambda>patterns cwd ignore. if cwd = ''/w/p'' then [''a.js''] else []),
      env_readFileSync = (\<lambda>fullPath. if fullPath = ''/w/p/a.js'' then content else []),
      env_now = ''2024-01-01 00:00:00''\<rparr>"

definition name_only :: "string \<Rightarrow> index_options" where
  "name_only n = \<lparr>opt_name = Some n, opt_recursive = None, opt_exclude = None\<rparr>"


text \<open>A function that spans three lines.\<close>

definition three_lines :: string where
  "three_lines = ''function f() {'' @ [newline] @ ''  return 1;'' @ [newline] @ ''}''"

section \<open>Identifier tokens\<close>

text \<open>An identifier, as \<open>\b[a-zA-Z_]\w*\b\<close> matches it: a letter or underscore followed by
  word characters; and an identifier without capitals.\<close>

definition first_char :: "char \<Rightarrow> bool" where
  "first_char c = (is_lower c \<or> is_upper c \<or> c = CHR ''_'')"

definition is_identifier :: "string \<Rightarrow> bool" where
  "is_identifier w = (w \<noteq> [] \<and> first_char (hd w) \<and> list_all word_char w)"

definition lower_ident :: "string \<Rightarrow> bool" where
  "lower_ident t =
     (t \<noteq> [] \<and> \<not> is_digit (hd t) \<and> list_all (\<lambda>c. is_lower c \<or> is_digit c \<or> c = CHR ''_'') t)"

definition kw_sample :: string where
  "kw_sample = ''class Foo { Class foo(x9, a_b) { return 9abc if; } }''"

section \<open>Ranking in the words of the specification\<close>

text \<open>The query occurs in a text, without regard to the case of ASCII letters; the score
  by the tier table; and the rows of the query before ordering and truncation.\<close>

definition occurs_ci :: "string \<Rightarrow> string \<Rightarrow> bool" where
  "occurs_ci q s = sublist (map ascii_lower q) (map ascii_lower s)"

definition tier_score :: "string \<Rightarrow> code_entry \<Rightarrow> int" where
  "tier_score query ce =
     (if occurs_ci query (ce_name ce) then 100
      else if occurs_ci query (ce_keywords ce) then 50
      else if occurs_ci query (ce_snippet ce) then 25
      else 10)"

text \<open>The entry as \<open>LIKE\<close> reads it: name, keywords and snippet up to their first NUL
  character (the whole field when it holds none).\<close>

definition nul_terminated :: "code_entry \<Rightarrow> code_entry" where
  "nul_terminated ce =
     ce\<lparr>ce_name := c_string (ce_name ce), ce_keywords := c_string (ce_keywords ce),
        ce_snippet := c_string (ce_snippet ce)\<rparr>"

definition candidates :: "string \<Rightarrow> search_options \<Rightarrow> database \<Rightarrow> search_row list" where
  "candidates query options db =
     map (\<lambda>(ce, p). \<lparr>sr_entry = ce, sr_projectName = p_name p,
                       sr_relevance = relevance_of query ce\<rparr>)
         (filter (\<lambda>(ce, p). where_clause query options ce p) (joined db))"


section \<open>Sample stores\<close>

definition all_opts :: search_options where
  "all_opts = \<lparr>opt_project = None, opt_type = None, opt_limit = 10\<rparr>"

definition mk_entry :: "nat \<Rightarrow> string \<Rightarrow> string \<Rightarrow> string \<Rightarrow> code_entry" where
  "mk_entry i n k c =
     \<lparr>ce_id = i, ce_project_id = 1, ce_file_path = ''a.js'', ce_name = n, ce_type = ''function'',
      ce_code = c, ce_snippet = slice0 c 200, ce_line_start = 1, ce_line_end = 2, ce_keywords = k\<rparr>"

definition db_of :: "code_entry list \<Rightarrow> database" where
  "db_of es =
     \<lparr>projects = [\<lparr>p_id = 1, p_name = ''p'', p_path = ''/w/p'', p_file_count = 1,
                    p_indexed_at = ''2024-01-01 00:00:00''\<rparr>],
      code_entries = es, projects_seq = 1, code_entries_seq = length es, foreign_keys = True\<rparr>"

definition auth_db :: database where
  "auth_db = db_of [mk_entry 1 ''login'' ''auth token'' ''login() {}'',
                    mk_entry 2 ''authLogin'' ''token session'' ''authLogin() {}'']"

definition underscore_entry :: code_entry where
  "underscore_entry = mk_entry 1 ''login'' ''auth_token'' ''login() {}''"

definition long_code :: string where
  "long_code = ''function f() {'' @ replicate 200 CHR '';'' @ '' return 1 + 1; }''"


definition tie_db :: database where
  "tie_db = db_of [mk_entry 1 ''authB'' [] ''authB() {}'',
                   mk_entry 2 ''authA'' [] ''authA() {}'',
                   mk_entry 3 ''auth'' [] ''auth() {}'']"

section \<open>Stores as the code builds them\<close>

text \<open>No entry refers to a project id beyond those the \<open>projects\<close> table has handed out.\<close>

definition ids_in_range :: "database \<Rightarrow> bool" where
  "ids_in_range db =
     list_all (\<lambda>e. ce_project_id e \<le> fold max (map p_id (projects db)) (projects_seq db))
              (code_entries db)"

section \<open>Properties of the extraction\<close>

lemma string_mode_before: "i \<le> start \<Longrightarrow> string_mode content start i = None"
  by (cases i) auto

lemma brace_count_Suc:
  "start \<le> i \<Longrightarrow> brace_count b content start (Suc i) =
     brace_count b content start i + (if string_mode content start i = None \<and> content ! i = b then 1 else 0)"
  by (simp add: brace_count_def)

lemma nesting_depth_Suc:
  "start \<le> i \<Longrightarrow> nesting_depth content start (Suc i) =
     nesting_depth content start i
     + (if string_mode content start i = None \<and> content ! i = lbrace then 1 else 0)
     - (if string_mode content start i = None \<and> content ! i = rbrace then 1 else 0)"
  by (simp add: nesting_depth_def brace_count_Suc)

lemma chars_distinct:
  "lbrace \<noteq> rbrace" "lbrace \<noteq> dquote" "lbrace \<noteq> squote" "rbrace \<noteq> dquote" "rbrace \<noteq> squote"
  by (simp_all add: lbrace_def rbrace_def dquote_def squote_def)

lemma upt_head: "i < n \<Longrightarrow> [i ..< n] = i # [Suc i ..< n]"
  by (simp add: upt_conv_Cons)

lemma no_backslash_not_escaped:
  assumes "backslash \<notin> set content"
  shows "\<not> escaped content start i"
proof -
  let ?xs = "rev (take (i - start) (drop start content))"
  have "set ?xs \<subseteq> set content"
    using set_take_subset[of "i - start" "drop start content"] set_drop_subset[of start content]
    by auto
  then have "\<forall>x \<in> set ?xs. x \<noteq> backslash" using assms by auto
  then have "takeWhile (\<lambda>c. c = backslash) ?xs = []"
    by (cases ?xs) auto
  then show ?thesis by (simp add: escaped_def backslashes_before_def)
qed

text \<open>
  On a text without backslashes \<open>findClosingBrace\<close> is the extent of the specification:
  the loop counts only the braces outside string literals and returns the offset right
  after the first closing brace that brings the depth to zero.
\<close>

lemma findClosingBrace_loop_extent:
  "backslash \<notin> set content \<Longrightarrow> start \<le> i \<Longrightarrow> openBraces = nesting_depth content start i \<Longrightarrow>
   (if inString then stringChar \<noteq> None \<and> string_mode content start i = stringChar
    else string_mode content start i = None) \<Longrightarrow>
   findClosingBrace_loop content i openBraces inString stringChar =
     (case find (closing_brace content start) [i ..< length content] of
        None \<Rightarrow> length content
      | Some j \<Rightarrow> Suc j)"
proof (induction content i openBraces inString stringChar rule: findClosingBrace_loop.induct)
  case (1 content i openBraces inString stringChar)
  show ?case
  proof (cases "i < length content")
    case False
    then show ?thesis by (simp add: findClosingBrace_loop.simps[of content i])
  next
    case True
    note lt = True
    have le: "start \<le> Suc i" using "1.prems"(2) by simp
    note noback = "1.prems"(1)
    have ne: "\<not> escaped content start i" using noback by (rule no_backslash_not_escaped)
    have "i - 1 < length content" using lt by simp
    then have "content ! (i - 1) \<in> set content" by (rule nth_mem)
    then have pb: "\<not> (i > 0 \<and> content ! (i - 1) = backslash)"
      using noback by auto
    have qS: "string_mode content start (Suc i) =
        (case string_mode content start i of
              Some q \<Rightarrow>
                if content ! i = q \<and> \<not> (i > 0 \<and> content ! (i - 1) = backslash) then None
                else Some q
            | None \<Rightarrow>
                if content ! i = dquote \<or> content ! i = squote then Some (content ! i)
                else None)"
      using "1.prems"(2) ne pb by (auto split: option.splits)
    note dS = nesting_depth_Suc[OF "1.prems"(2), of content]
    show ?thesis
    proof (cases inString)
      case True
      then obtain q where q: "stringChar = Some q" "string_mode content start i = Some q"
        using "1.prems"(4) by auto
      have nc: "\<not> closing_brace content start i" using q by (simp add: closing_brace_def)
      have d: "nesting_depth content start (Suc i) = openBraces" using dS q "1.prems"(3) by simp
      show ?thesis
      proof (cases "Some (content ! i) = stringChar \<and> \<not> (i > 0 \<and> content ! (i - 1) = backslash)")
        case T: True
        have "findClosingBrace_loop content i openBraces inString stringChar
              = findClosingBrace_loop content (Suc i) openBraces False stringChar"
          using lt True T by (subst findClosingBrace_loop.simps) (simp add: Let_def)
        also have "\<dots> = (case find (closing_brace content start) [Suc i ..< length content] of
                            None \<Rightarrow> length content | Some j \<Rightarrow> Suc j)"
          using noback ne pb lt True T q qS d le by (intro "1.IH"(1)) (auto simp: Let_def)
        finally show ?thesis using nc lt by (simp add: upt_head)
      next
        case F: False
        have "findClosingBrace_loop content i openBraces inString stringChar
              = findClosingBrace_loop content (Suc i) openBraces inString stringChar"
          using lt True F by (subst findClosingBrace_loop.simps) (auto simp add: Let_def)
        also have "\<dots> = (case find (closing_brace content start) [Suc i ..< length content] of
                            None \<Rightarrow> length content | Some j \<Rightarrow> Suc j)"
          using noback ne pb lt True F q qS d le by (intro "1.IH"(2)) (auto simp: Let_def)
        finally show ?thesis using nc lt by (simp add: upt_head)
      qed
    next
      case False
      then have q: "string_mode content start i = None" using "1.prems"(4) by simp
      let ?c = "content ! i"
      let ?rest = "case find (closing_brace content start) [Suc i ..< length content] of
                     None \<Rightarrow> length content | Some j \<Rightarrow> Suc j"
      consider (quote) "?c = dquote \<or> ?c = squote"
        | (lb) "?c = lbrace"
        | (rb) "?c = rbrace"
        | (other) "?c \<noteq> dquote" "?c \<noteq> squote" "?c \<noteq> lbrace" "?c \<noteq> rbrace"
        by blast
      then show ?thesis
      proof cases
        case quote
        then have nb: "?c \<noteq> lbrace" "?c \<noteq> rbrace" using chars_distinct by auto
        have nc: "\<not> closing_brace content start i" using nb by (simp add: closing_brace_def)
        have d: "nesting_depth content start (Suc i) = openBraces" using dS q nb "1.prems"(3) by simp
        have "findClosingBrace_loop content i openBraces inString stringChar
              = findClosingBrace_loop content (Suc i) openBraces True (Some ?c)"
          using lt False quote by (subst findClosingBrace_loop.simps) (simp add: Let_def)
        also have "\<dots> = ?rest"
          using noback ne pb lt False quote q qS d le by (intro "1.IH"(3)) (auto simp: Let_def)
        finally show ?thesis using nc lt by (simp add: upt_head)
      next
        case lb
        then have nq: "?c \<noteq> dquote" "?c \<noteq> squote" "?c \<noteq> rbrace" using chars_distinct by auto
        have nc: "\<not> closing_brace content start i" using nq by (simp add: closing_brace_def)
        have d: "nesting_depth content start (Suc i) = openBraces + 1" using dS q lb nq "1.prems"(3) by simp
        have "findClosingBrace_loop content i openBraces inString stringChar
              = findClosingBrace_loop content (Suc i) (openBraces + 1) inString stringChar"
          using lt False lb nq by (subst findClosingBrace_loop.simps) (simp add: Let_def)
        also have "\<dots> = ?rest"
          using noback ne pb lt False lb nq q qS d le by (intro "1.IH"(4)) (auto simp: Let_def)
        finally show ?thesis using nc lt by (simp add: upt_head)
      next
        case rb
        then have nq: "?c \<noteq> dquote" "?c \<noteq> squote" "?c \<noteq> lbrace" using chars_distinct by auto
        have d: "nesting_depth content start (Suc i) = openBraces - 1" using dS q rb nq "1.prems"(3) by simp
        show ?thesis
        proof (cases "openBraces - 1 = 0")
          case True
          then have c: "closing_brace content start i" using q rb d by (simp add: closing_brace_def)
          have "findClosingBrace_loop content i openBraces inString stringChar = Suc i"
            using lt False rb nq True by (subst findClosingBrace_loop.simps) (simp add: Let_def)
          then show ?thesis using c lt by (simp add: upt_head)
        next
          case F: False
          then have nc: "\<not> closing_brace content start i" using d by (simp add: closing_brace_def)
          have "findClosingBrace_loop content i openBraces inString stringChar
                = findClosingBrace_loop content (Suc i) (openBraces - 1) inString stringChar"
            using lt False rb nq F by (subst findClosingBrace_loop.simps) (simp add: Let_def)
          also have "\<dots> = ?rest"
            using noback ne pb lt False rb nq F q qS d le by (intro "1.IH"(5)) (auto simp: Let_def)
          finally show ?thesis using nc lt by (simp add: upt_head)
        qed
      next
        case other
        have nc: "\<not> closing_brace content start i" using other by (simp add: closing_brace_def)
        have d: "nesting_depth content start (Suc i) = openBraces" using dS q other "1.prems"(3) by simp
        have "findClosingBrace_loop content i openBraces inString stringChar
              = findClosingBrace_loop content (Suc i) openBraces inString stringChar"
          using lt False other by (subst findClosingBrace_loop.simps) (simp add: Let_def)
        also have "\<dots> = ?rest"
          using noback ne pb lt False other q qS d le by (intro "1.IH"(6)) (auto simp: Let_def)
        finally show ?thesis using nc lt by (simp add: upt_head)
      qed
    qed
  qed
qed



lemma findClosingBrace_without_backslash:
  "backslash \<notin> set content \<Longrightarrow> findClosingBrace content startIndex = body_extent content startIndex"
  unfolding findClosingBrace_def body_extent_def
  by (rule findClosingBrace_loop_extent)
     (simp_all add: nesting_depth_def brace_count_def string_mode_before)

text \<open>
  The example of C1: for the text \<open>function f() { const s = "{"; return s; }\<close> the
  function extraction gives exactly one unit, named \<open>f\<close>, whose code is the whole text, up
  to the final closing brace.
\<close>

lemma extractFunctions_brace_in_string:
  "map (\<lambda>u. (name u, code u)) (extractFunctions ''function f() { const s = \"{\"; return s; }'')
     = [(''f'', ''function f() { const s = \"{\"; return s; }'')]"
  by code_simp

text \<open>
  C1 on the code. \<open>findClosingBrace\<close> takes a quote for escaped when the one character
  before it is a backslash. In \<open>function f() { a("\\", "}") }\<close> the literal \<open>"\\"\<close> ends
  at offset 20, after an escaped backslash; the loop stays in string mode there and leaves
  it at offset 23, the opening quote of \<open>"}"\<close>. The closing brace at offset 24 lies
  inside that literal; the loop counts it and returns 25, and the code of the unit \<open>f\<close> is
  cut there. The extent of the specification is the whole text, 29 characters.
\<close>

theorem findClosingBrace_escaped_backslash:
  "length cut_text = 29
   \<and> cut_text ! 24 = rbrace \<and> string_mode cut_text 0 24 = Some dquote
   \<and> findClosingBrace cut_text 0 = 25
   \<and> body_extent cut_text 0 = 29
   \<and> map (\<lambda>u. (name u, code u)) (extractFunctions cut_text) = [(''f'', take 25 cut_text)]"
  by code_simp

text \<open>
  C10: for the text \<open>if (x) { y(); }\<close> the first match of the function pattern is by its
  third alternative (group 5), and the extraction gives exactly one unit, whose name is
  \<open>if\<close> and whose code is the whole text, from the keyword through the closing brace.
\<close>

theorem extractFunctions_control_flow:
  "map_option (\<lambda>m. (index m, groups m 2, groups m 3, groups m 5)) (exec functionRegex ''if (x) { y(); }'' 0)
     = Some (0, None, None, Some ''if'')
   \<and> map (\<lambda>u. (name u, code u)) (extractFunctions ''if (x) { y(); }'') = [(''if'', ''if (x) { y(); }'')]"
  by code_simp

section \<open>Lines and snippets of the extracted units\<close>

lemma split_nonempty: "split c s \<noteq> []"
  by (induction s) (auto split: list.splits)

lemma length_split: "length (split c s) = Suc (count_list s c)"
proof (induction s)
  case Nil
  show ?case by simp
next
  case (Cons x xs)
  show ?case
  proof (cases "split c xs")
    case Nil
    then show ?thesis using split_nonempty[of c xs] by simp
  next
    case (Cons w ws)
    then show ?thesis using Cons.IH by simp
  qed
qed

lemma extractFunctions_loop_units:
  "u \<in> set (extractFunctions_loop content li) \<Longrightarrow> \<exists>idx n. u = unit_at content idx n"
proof (induction content li rule: extractFunctions_loop.induct)
  case (1 content li)
  show ?case
  proof (cases "exec functionRegex content li")
    case None
    with "1.prems" show ?thesis
      by (subst (asm) extractFunctions_loop.simps) simp
  next
    case (Some m)
    from "1.prems" Some "1.IH"[OF Some] show ?thesis
      by (subst (asm) extractFunctions_loop.simps) (auto split: option.splits if_splits)
  qed
qed

lemma extractClasses_loop_units:
  "u \<in> set (extractClasses_loop content li) \<Longrightarrow> \<exists>idx n. u = unit_at content idx n"
proof (induction content li rule: extractClasses_loop.induct)
  case (1 content li)
  show ?case
  proof (cases "exec classRegex content li")
    case None
    with "1.prems" show ?thesis
      by (subst (asm) extractClasses_loop.simps) simp
  next
    case (Some m)
    from "1.prems" Some "1.IH"[OF Some] show ?thesis
      by (subst (asm) extractClasses_loop.simps) (auto split: option.splits if_splits)
  qed
qed

lemma extracted_units:
  "u \<in> set (extractFunctions content) \<or> u \<in> set (extractClasses content)
   \<Longrightarrow> \<exists>idx n. u = unit_at content idx n"
  unfolding extractFunctions_def extractClasses_def
  using extractFunctions_loop_units extractClasses_loop_units by blast

lemma unit_at_lines:
  "lineStart (unit_at content idx n) = Suc (count_list (substring content 0 idx) newline)"
  "lineEnd (unit_at content idx n)
     = lineStart (unit_at content idx n) + count_list (code (unit_at content idx n)) newline + 1"
  by (simp_all add: unit_at_def Let_def length_split)


text \<open>
  C5, as the code has it: for every unit that the function or the class extraction emits,
  \<open>lineEnd\<close> is \<open>lineStart\<close> plus the number of lines of the unit's code, that is the
  number of its newline characters plus one (\<open>code.split('\n').length\<close>).
\<close>

theorem lineEnd_counts_lines:
  "u \<in> set (extractFunctions content) \<or> u \<in> set (extractClasses content)
   \<Longrightarrow> lineEnd u = lineStart u + count_list (code u) newline + 1"
  using extracted_units unit_at_lines(2) by blast

theorem lineEnd_counts_lines_witness:
  "\<lparr>name = ''f'', code = three_lines, lineStart = 1, lineEnd = 4, keywords_str = []\<rparr>
     \<in> set (extractFunctions three_lines)
   \<and> count_list three_lines newline = 2"
proof -
  have m: "\<lparr>name = ''f'', code = three_lines, lineStart = 1, lineEnd = 4, keywords_str = []\<rparr>
             \<in> set (extractFunctions three_lines)"
    by code_simp
  have "count_list three_lines newline = 2" by code_simp
  with m lineEnd_counts_lines[of _ three_lines, OF disjI1, OF m] show ?thesis by simp
qed

text \<open>
  C5, as the claim states it, fails: the one-line function \<open>function f() {}\<close> starts on
  line 1 and holds no newline, and its \<open>lineEnd\<close> is 2, not 1.
\<close>

theorem lineEnd_newlines_counterexample:
  "extractFunctions ''function f() {}''
     = [\<lparr>name = ''f'', code = ''function f() {}'', lineStart = 1, lineEnd = 2, keywords_str = []\<rparr>]
   \<and> count_list ''function f() {}'' newline = 0 \<and> (2::nat) \<noteq> 1 + 0"
  by code_simp

text \<open>
  C7: every entry that \<open>indexProject\<close> builds from an extracted function or class has
  \<open>lineStart \<ge> 1\<close> and \<open>lineEnd \<ge> lineStart\<close>, and its snippet is a prefix of its code
  of at most 200 characters.
\<close>

theorem emitted_entry_invariants:
  "(u \<in> set (extractFunctions content) \<and> e = entry_of ''function'' projectId file u)
   \<or> (u \<in> set (extractClasses content) \<and> e = entry_of ''class'' projectId file u)
   \<Longrightarrow> 1 \<le> ce_line_start e \<and> ce_line_start e \<le> ce_line_end e
       \<and> prefix (ce_snippet e) (ce_code e) \<and> length (ce_snippet e) \<le> 200"
proof -
  assume a: "(u \<in> set (extractFunctions content) \<and> e = entry_of ''function'' projectId file u)
   \<or> (u \<in> set (extractClasses content) \<and> e = entry_of ''class'' projectId file u)"
  then obtain idx n where u: "u = unit_at content idx n" using extracted_units by blast
  from a obtain t where e: "e = entry_of t projectId file u" by blast
  have "1 \<le> lineStart u" "lineStart u \<le> lineEnd u"
    using unit_at_lines[of content idx n] u by simp_all
  then show ?thesis
    by (simp add: e entry_of_def slice0_def take_is_prefix)
qed

theorem emitted_entry_invariants_witness:
  "\<lparr>name = ''f'', code = three_lines, lineStart = 1, lineEnd = 4, keywords_str = []\<rparr>
     \<in> set (extractFunctions three_lines)
   \<and> ce_line_start (entry_of ''function'' 1 ''a.js''
          \<lparr>name = ''f'', code = three_lines, lineStart = 1, lineEnd = 4, keywords_str = []\<rparr>) = 1
   \<and> prefix (ce_snippet (entry_of ''function'' 1 ''a.js''
          \<lparr>name = ''f'', code = three_lines, lineStart = 1, lineEnd = 4, keywords_str = []\<rparr>))
        three_lines"
proof -
  let ?u = "\<lparr>name = ''f'', code = three_lines, lineStart = 1, lineEnd = 4, keywords_str = []\<rparr>"
  have m: "?u \<in> set (extractFunctions three_lines)"
    by code_simp
  from emitted_entry_invariants[of ?u three_lines "entry_of ''function'' 1 ''a.js'' ?u" 1 "''a.js''"] m
  have "prefix (ce_snippet (entry_of ''function'' 1 ''a.js'' ?u)) (ce_code (entry_of ''function'' 1 ''a.js'' ?u))"
    by blast
  then show ?thesis using m by (simp add: entry_of_def)
qed

section \<open>Keywords\<close>

lemma take_takeWhile_all:
  "k \<le> length (takeWhile P xs) \<Longrightarrow> list_all P (take k xs)"
proof -
  assume k: "k \<le> length (takeWhile P xs)"
  have "take k xs = take k (takeWhile P xs @ dropWhile P xs)" by simp
  also have "\<dots> = take k (takeWhile P xs)" using k by (simp only: take_append) simp
  finally have "set (take k xs) \<subseteq> set (takeWhile P xs)" by (simp add: set_take_subset)
  then show ?thesis by (auto simp: list_all_iff dest: set_takeWhileD)
qed

lemma rmatch_keywordRegex:
  assumes "(e, c') \<in> set (rmatch keywordRegex s p c)"
  shows "p < length s \<and> first_char (s ! p)
         \<and> (\<exists>k \<le> length (takeWhile word_char (drop (Suc p) s)). e = Suc p + k)"
  using assms
  by (auto simp: keywordRegex_def first_char_def split: if_splits)

lemma substring_word:
  assumes "p < length s" and "first_char (s ! p)"
    and "k \<le> length (takeWhile word_char (drop (Suc p) s))"
  shows "is_identifier (substring s p (Suc p + k))"
proof -
  have k: "k \<le> length (drop (Suc p) s)"
    using assms(3) length_takeWhile_le[of word_char "drop (Suc p) s"] by linarith
  then have le: "Suc p + k \<le> length s" using assms(1) by simp
  have "substring s p (Suc p + k) = take (Suc k) (drop p s)"
    using le assms(1) by (simp add: substring_def Let_def min_def max_def)
  also have "drop p s = s ! p # drop (Suc p) s"
    using assms(1) by (simp add: Cons_nth_drop_Suc)
  finally have eq: "substring s p (Suc p + k) = s ! p # take k (drop (Suc p) s)" by simp
  have "word_char (s ! p)" using assms(2) by (auto simp: first_char_def word_char_def)
  then show ?thesis
    using eq assms(2) take_takeWhile_all[OF assms(3)] by (simp add: is_identifier_def)
qed

lemma exec_keywordRegex:
  assumes "exec keywordRegex s li = Some m"
  shows "is_identifier (substring s (index m) (lastIndex m))"
proof -
  from assms obtain p e c rest where
    r: "rmatch keywordRegex s p Map.empty = (e, c) # rest" and m: "m = \<lparr>index = p, lastIndex = e, groups = c\<rparr>"
    by (auto simp: exec_def split: option.splits list.splits)
  from r have "(e, c) \<in> set (rmatch keywordRegex s p Map.empty)" by simp
  from rmatch_keywordRegex[OF this] substring_word show ?thesis using m by auto
qed

lemma match_all_keywordRegex:
  "r = keywordRegex \<Longrightarrow> w \<in> set (match_all r s li) \<Longrightarrow> is_identifier w"
proof (induction r s li rule: match_all.induct)
  case (1 r s li)
  show ?case
  proof (cases "exec r s li")
    case None
    with "1.prems" show ?thesis by (subst (asm) match_all.simps) simp
  next
    case (Some m)
    from "1.prems" Some "1.IH"[OF Some "1.prems"(1)] exec_keywordRegex[of s li m]
    show ?thesis
      by (subst (asm) match_all.simps) (auto split: if_splits)
  qed
qed


lemma keywordSet_fold_distinct:
  "distinct acc \<Longrightarrow>
   distinct (fold (\<lambda>word ks. if word \<notin> set excluded \<and> length word > 2
                               then set_add ks (toLowerCase word) else ks) words acc)"
  by (induction words arbitrary: acc) (auto simp: set_add_def)

lemma keywordSet_fold_set:
  "t \<in> set (fold (\<lambda>word ks. if word \<notin> set excluded \<and> length word > 2
                               then set_add ks (toLowerCase word) else ks) words acc)
   \<Longrightarrow> t \<in> set acc \<or> (\<exists>w \<in> set words. w \<notin> set excluded \<and> length w > 2 \<and> t = toLowerCase w)"
proof (induction words arbitrary: acc)
  case Nil
  then show ?case by simp
next
  case (Cons x xs)
  from Cons.prems Cons.IH show ?case
    by (fastforce simp: set_add_def split: if_splits)
qed

lemma keywordSet_words:
  "keywordSet text =
     fold (\<lambda>word ks. if word \<notin> set excluded \<and> length word > 2
                      then set_add ks (toLowerCase word) else ks) (match_all keywordRegex text 0) []"
  by (simp add: keywordSet_def match_g_def split: list.splits)

lemma of_char_bounds:
  "is_upper c \<longleftrightarrow> 65 \<le> (of_char c :: nat) \<and> (of_char c :: nat) \<le> 90"
  "is_lower c \<longleftrightarrow> 97 \<le> (of_char c :: nat) \<and> (of_char c :: nat) \<le> 122"
  "is_digit c \<longleftrightarrow> 48 \<le> (of_char c :: nat) \<and> (of_char c :: nat) \<le> 57"
  by (simp_all add: is_upper_def is_lower_def is_digit_def less_eq_char_def)

lemma toLowerCase_char_upper: "is_upper c \<Longrightarrow> is_lower (toLowerCase_char c)"
  by (simp add: toLowerCase_char_def of_char_bounds)

lemma toLowerCase_char_same: "word_char c \<Longrightarrow> \<not> is_upper c \<Longrightarrow> toLowerCase_char c = c"
proof -
  assume w: "word_char c" and u: "\<not> is_upper c"
  have "(of_char c :: nat) \<le> 122" using w u
    by (auto simp: word_char_def of_char_bounds)
  then have "\<not> CHR 0xC0 \<le> c" by (simp add: less_eq_char_def)
  then show ?thesis using u by (simp add: toLowerCase_char_def)
qed

lemma toLowerCase_char_word:
  "word_char c \<Longrightarrow> is_lower (toLowerCase_char c) \<or> is_digit (toLowerCase_char c) \<or> toLowerCase_char c = CHR ''_''"
  using toLowerCase_char_upper[of c] toLowerCase_char_same[of c]
  by (cases "is_upper c") (auto simp: word_char_def)

lemma toLowerCase_char_first:
  "first_char c \<Longrightarrow> \<not> is_digit (toLowerCase_char c)"
proof (cases "is_upper c")
  case True
  from toLowerCase_char_upper[OF this] show ?thesis by (simp add: of_char_bounds)
next
  case False
  assume f: "first_char c"
  then have "word_char c" by (auto simp: first_char_def word_char_def)
  from toLowerCase_char_same[OF this False] f False show ?thesis
    by (auto simp: first_char_def of_char_bounds)
qed

lemma toLowerCase_identifier: "is_identifier w \<Longrightarrow> lower_ident (toLowerCase w)"
  by (cases w) (auto simp: is_identifier_def lower_ident_def toLowerCase_def list_all_iff
                   toLowerCase_char_first dest: toLowerCase_char_word)

lemma split_no_sep: "c \<notin> set w \<Longrightarrow> split c w = [w]"
  by (induction w) auto

lemma split_append_sep: "c \<notin> set w \<Longrightarrow> split c (w @ c # rest) = w # split c rest"
  by (induction w) auto

lemma split_join:
  "ws \<noteq> [] \<Longrightarrow> \<forall>w \<in> set ws. c \<notin> set w \<Longrightarrow> split c (join c ws) = ws"
  by (induction c ws rule: join.induct) (auto simp: split_no_sep split_append_sep)

lemma lower_ident_no_space: "lower_ident t \<Longrightarrow> CHR '' '' \<notin> set t"
  by (auto simp: lower_ident_def list_all_iff of_char_bounds)


text \<open>
  C6, as the code has it: the keywords string is the members of the keyword set joined by
  single spaces (and splitting it at the spaces gives them back); the members are
  distinct, longer than two characters and lower-case identifiers, and each is the
  lower-casing of an identifier of the text that, as it is written there, is not in the
  stoplist. The stoplist is tested before the lower-casing.
\<close>

theorem keywords_tokens:
  "extractKeywords text = join CHR '' '' (keywordSet text)
   \<and> (keywordSet text \<noteq> [] \<longrightarrow> split CHR '' '' (extractKeywords text) = keywordSet text)
   \<and> distinct (keywordSet text)
   \<and> (\<forall>t \<in> set (keywordSet text).
         2 < length t \<and> lower_ident t
         \<and> (\<exists>w \<in> set (match_all keywordRegex text 0).
               is_identifier w \<and> w \<notin> set excluded \<and> t = toLowerCase w))"
proof -
  have d: "distinct (keywordSet text)"
    unfolding keywordSet_words by (rule keywordSet_fold_distinct) simp
  have t: "2 < length t \<and> lower_ident t
         \<and> (\<exists>w \<in> set (match_all keywordRegex text 0).
               is_identifier w \<and> w \<notin> set excluded \<and> t = toLowerCase w)"
    if "t \<in> set (keywordSet text)" for t
  proof -
    from that keywordSet_fold_set[of t "match_all keywordRegex text 0" "[]"]
    obtain w where w: "w \<in> set (match_all keywordRegex text 0)" "w \<notin> set excluded"
      "length w > 2" "t = toLowerCase w"
      unfolding keywordSet_words by auto
    have i: "is_identifier w" using match_all_keywordRegex[OF refl w(1)] .
    show ?thesis using w i toLowerCase_identifier[OF i] by (auto simp: toLowerCase_def)
  qed
  have s: "split CHR '' '' (extractKeywords text) = keywordSet text" if "keywordSet text \<noteq> []"
    unfolding extractKeywords_def using that t lower_ident_no_space
    by (intro split_join) auto
  show ?thesis using d t s by (simp add: extractKeywords_def)
qed


theorem keywords_tokens_witness:
  "keywordSet kw_sample = [''foo'', ''class'', ''a_b'']
   \<and> split CHR '' '' (extractKeywords kw_sample) = [''foo'', ''class'', ''a_b'']"
proof -
  have k: "keywordSet kw_sample = [''foo'', ''class'', ''a_b'']"
    by code_simp
  with keywords_tokens[of kw_sample] show ?thesis by simp
qed

text \<open>
  C6, as the claim states it, fails: the identifier \<open>Class\<close> is not in the stoplist, and
  its lower-casing \<open>class\<close>, which is, becomes a keyword.
\<close>

theorem keywords_stoplist_counterexample:
  "extractKeywords ''Class'' = ''class'' \<and> ''class'' \<in> set excluded"
  by code_simp

section \<open>Search\<close>

lemma like_percent:
  "like_compare (CHR ''%'' # p) s \<longleftrightarrow> (\<exists>t. suffix t s \<and> like_compare p t)"
proof (induction s)
  case Nil
  show ?case by simp
next
  case (Cons c s)
  have "like_compare (CHR ''%'' # p) (c # s)
          \<longleftrightarrow> like_compare p (c # s) \<or> like_compare (CHR ''%'' # p) s" by simp
  also have "\<dots> \<longleftrightarrow> like_compare p (c # s) \<or> (\<exists>t. suffix t s \<and> like_compare p t)"
    using Cons.IH by simp
  also have "\<dots> \<longleftrightarrow> (\<exists>t. suffix t (c # s) \<and> like_compare p t)" by (auto simp: suffix_Cons)
  finally show ?case .
qed

lemma like_only_percent: "like_compare ''%'' t"
  using like_percent[of "[]" t] by auto

lemma like_prefix:
  "CHR ''%'' \<notin> set q \<Longrightarrow> CHR ''_'' \<notin> set q \<Longrightarrow>
   like_compare (q @ ''%'') t \<longleftrightarrow> prefix (map ascii_lower q) (map ascii_lower t)"
proof (induction q arbitrary: t)
  case Nil
  show ?case using like_only_percent by simp
next
  case (Cons x xs)
  then show ?case by (cases t) auto
qed

lemma c_string_id: "CHR 0x00 \<notin> set s \<Longrightarrow> c_string s = s"
  by (auto simp: c_string_def takeWhile_eq_all_conv)

lemma sublist_map_iff:
  "sublist X (map f s) \<longleftrightarrow> (\<exists>t. suffix t s \<and> prefix X (map f t))"
proof
  assume "sublist X (map f s)"
  then obtain ps ss where e: "map f s = ps @ X @ ss" by (auto simp: sublist_def)
  let ?t = "drop (length ps) s"
  have "map f ?t = drop (length ps) (map f s)" by (simp add: drop_map)
  also have "\<dots> = X @ ss" using e by simp
  finally have "prefix X (map f ?t)" by simp
  moreover have "suffix ?t s" by (rule suffix_drop)
  ultimately show "\<exists>t. suffix t s \<and> prefix X (map f t)" by blast
next
  assume "\<exists>t. suffix t s \<and> prefix X (map f t)"
  then obtain t ps ss where "s = ps @ t" "map f t = X @ ss" by (auto simp: suffix_def prefix_def)
  then have "map f s = map f ps @ X @ ss" by simp
  then show "sublist X (map f s)" unfolding sublist_def by blast
qed

lemma like_occurs:
  assumes "CHR ''%'' \<notin> set q" and "CHR ''_'' \<notin> set q" and "CHR 0x00 \<notin> set q"
  shows "like (''%'' @ q @ ''%'') s \<longleftrightarrow> occurs_ci q (c_string s)"
proof -
  have "CHR 0x00 \<notin> set (''%'' @ q @ ''%'')" using assms(3) by simp
  then have "c_string (''%'' @ q @ ''%'') = CHR ''%'' # q @ ''%''"
    using c_string_id[of "''%'' @ q @ ''%''"] by simp
  then have "like (''%'' @ q @ ''%'') s \<longleftrightarrow> like_compare (CHR ''%'' # q @ ''%'') (c_string s)"
    by (simp only: like_def)
  also have "\<dots> \<longleftrightarrow> occurs_ci q (c_string s)"
    using like_percent[of "q @ ''%''" "c_string s"] like_prefix[OF assms(1,2)]
    by (simp add: occurs_ci_def sublist_map_iff)
  finally show ?thesis .
qed

lemma relevance_of_tier:
  "CHR ''%'' \<notin> set q \<Longrightarrow> CHR ''_'' \<notin> set q \<Longrightarrow> CHR 0x00 \<notin> set q \<Longrightarrow>
   relevance_of q ce = tier_score q (nul_terminated ce)"
proof -
  assume "CHR ''%'' \<notin> set q" and "CHR ''_'' \<notin> set q" and "CHR 0x00 \<notin> set q"
  then have "\<And>s. like (''%'' @ q @ ''%'') s = occurs_ci q (c_string s)"
    using like_occurs by blast
  then show ?thesis
    unfolding relevance_of_def tier_score_def Let_def nul_terminated_def by simp
qed

lemma searchCode_candidates:
  "searchCode query options db =
     (if opt_limit options < 0 then sort_key order_key (candidates query options db)
      else take (nat (opt_limit options)) (sort_key order_key (candidates query options db)))"
  by (simp add: searchCode_def candidates_def Let_def)

lemma searchCode_subset:
  "r \<in> set (searchCode query options db) \<Longrightarrow> r \<in> set (candidates query options db)"
  by (auto simp: searchCode_candidates split: if_splits dest: in_set_takeD)

lemma candidates_row:
  "r \<in> set (candidates query options db) \<Longrightarrow>
   sr_relevance r = relevance_of query (sr_entry r)
   \<and> (\<exists>p \<in> set (projects db). where_clause query options (sr_entry r) p)"
  by (auto simp: candidates_def joined_def)


lemma sorted_order_key_nth:
  assumes "sorted (map order_key rs)" and "i < j" and "j < length rs"
  shows "sr_relevance (rs ! j) < sr_relevance (rs ! i)
         \<or> (sr_relevance (rs ! j) = sr_relevance (rs ! i)
            \<and> ce_name (sr_entry (rs ! i)) \<le> ce_name (sr_entry (rs ! j)))"
proof -
  have "map order_key rs ! i \<le> map order_key rs ! j"
    using assms by (intro sorted_nth_mono) auto
  then have "order_key (rs ! i) \<le> order_key (rs ! j)" using assms by simp
  then show ?thesis by (auto simp: order_key_def less_eq_prod_def)
qed

lemma sorted_searchCode: "sorted (map order_key (searchCode query options db))"
proof -
  have s: "sorted (map order_key (sort_key order_key (candidates query options db)))"
    by (rule sorted_sort_key)
  then have "sorted (take n (map order_key (sort_key order_key (candidates query options db))))" for n
    by (rule sorted_wrt_take)
  then show ?thesis using s by (simp add: searchCode_candidates take_map)
qed


text \<open>
  C3, as the code has it: the relevance of every result is that of the first matching
  tier of the \<open>CASE\<close> (100 for the name, else 50 for the keywords, else 25 for the snippet,
  else 10), a tier matching by \<open>LIKE '%query%'\<close>. For a query without the wildcard
  characters \<open>%\<close> and \<open>_\<close> and without a NUL character that is the score of the tier
  table, with "appears in" read as occurrence, without regard to ASCII case, in the field
  up to its first NUL character (the whole field when it holds none). For the query
  \<open>auth\<close> the entry \<open>authLogin\<close> scores 100 and comes before the entry \<open>login\<close> with
  keywords \<open>auth token\<close>, which scores 50.
\<close>

theorem relevance_tiers:
  "(r \<in> set (searchCode query options db) \<longrightarrow>
      sr_relevance r = relevance_of query (sr_entry r)
      \<and> (CHR ''%'' \<notin> set query \<and> CHR ''_'' \<notin> set query \<and> CHR 0x00 \<notin> set query
           \<longrightarrow> sr_relevance r = tier_score query (nul_terminated (sr_entry r))))
   \<and> map (\<lambda>r. (ce_name (sr_entry r), sr_relevance r)) (searchCode ''auth'' all_opts auth_db)
       = [(''authLogin'', 100), (''login'', 50)]"
proof (intro conjI impI)
  assume r: "r \<in> set (searchCode query options db)"
  from candidates_row[OF searchCode_subset[OF r]]
  show 1: "sr_relevance r = relevance_of query (sr_entry r)" by simp
  assume "CHR ''%'' \<notin> set query \<and> CHR ''_'' \<notin> set query \<and> CHR 0x00 \<notin> set query"
  then show "sr_relevance r = tier_score query (nul_terminated (sr_entry r))"
    using 1 relevance_of_tier by simp
next
  show "map (\<lambda>r. (ce_name (sr_entry r), sr_relevance r)) (searchCode ''auth'' all_opts auth_db)
       = [(''authLogin'', 100), (''login'', 50)]"
    by code_simp
qed

theorem relevance_tiers_witness:
  "hd (searchCode ''auth'' all_opts auth_db) \<in> set (searchCode ''auth'' all_opts auth_db)
   \<and> sr_relevance (hd (searchCode ''auth'' all_opts auth_db))
       = tier_score ''auth'' (nul_terminated (sr_entry (hd (searchCode ''auth'' all_opts auth_db))))
   \<and> tier_score ''auth'' (nul_terminated (sr_entry (hd (searchCode ''auth'' all_opts auth_db)))) = 100"
proof -
  have m: "hd (searchCode ''auth'' all_opts auth_db) \<in> set (searchCode ''auth'' all_opts auth_db)"
    by code_simp
  have q: "CHR ''%'' \<notin> set ''auth'' \<and> CHR ''_'' \<notin> set ''auth'' \<and> CHR 0x00 \<notin> set ''auth''"
    by simp
  have t: "tier_score ''auth'' (nul_terminated (sr_entry (hd (searchCode ''auth'' all_opts auth_db)))) = 100"
    by code_simp
  from relevance_tiers[of "hd (searchCode ''auth'' all_opts auth_db)" "''auth''" all_opts auth_db] m q
  have "sr_relevance (hd (searchCode ''auth'' all_opts auth_db))
       = tier_score ''auth'' (nul_terminated (sr_entry (hd (searchCode ''auth'' all_opts auth_db))))"
    by blast
  with m t show ?thesis by blast
qed

text \<open>
  C3, as the claim states it, fails for a query with a wildcard character: the query \<open>_\<close>
  does not occur in the name \<open>login\<close> and occurs in the keywords \<open>auth_token\<close>, which is
  the tier of 50, and the relevance is 100, since \<open>LIKE '%_%'\<close> holds of every name that
  is not empty. It fails for a query with a NUL character as well: the query \<open>n\<close>, NUL,
  \<open>zzz\<close> occurs in no field of the entries \<open>login\<close> and \<open>authLogin\<close>, and both are
  results of relevance 100, since the pattern is read as \<open>%n\<close> and both names end in \<open>n\<close>.
\<close>

theorem relevance_wildcard_counterexample:
  "map sr_relevance (searchCode ''_'' all_opts (db_of [underscore_entry])) = [100]
   \<and> tier_score ''_'' underscore_entry = 50
   \<and> map (\<lambda>r. (ce_name (sr_entry r), sr_relevance r))
          (searchCode (''n'' @ [CHR 0x00] @ ''zzz'') all_opts auth_db)
       = [(''authLogin'', 100), (''login'', 100)]
   \<and> map (tier_score (''n'' @ [CHR 0x00] @ ''zzz'')) (code_entries auth_db) = [10, 10]"
  by code_simp

text \<open>
  C4: the results are in descending order of relevance, and results of equal relevance
  in ascending order of name (texts compared character by character); the result without
  a limit is the ordered list of all candidate rows, and the result with a limit is its
  first \<open>limit\<close> rows: the truncation comes after the ordering.
\<close>

theorem search_order:
  "(\<forall>i j. i < j \<and> j < length (searchCode query options db) \<longrightarrow>
      sr_relevance (searchCode query options db ! j) < sr_relevance (searchCode query options db ! i)
      \<or> (sr_relevance (searchCode query options db ! j) = sr_relevance (searchCode query options db ! i)
         \<and> ce_name (sr_entry (searchCode query options db ! i))
              \<le> ce_name (sr_entry (searchCode query options db ! j))))
   \<and> sorted (map order_key (searchCode query (options\<lparr>opt_limit := - 1\<rparr>) db))
   \<and> mset (searchCode query (options\<lparr>opt_limit := - 1\<rparr>) db) = mset (candidates query options db)
   \<and> searchCode query options db
       = (if opt_limit options < 0 then searchCode query (options\<lparr>opt_limit := - 1\<rparr>) db
          else take (nat (opt_limit options)) (searchCode query (options\<lparr>opt_limit := - 1\<rparr>) db))"
proof -
  have c: "candidates query (options\<lparr>opt_limit := - 1\<rparr>) db = candidates query options db"
    by (simp add: candidates_def where_clause_def)
  have a: "searchCode query (options\<lparr>opt_limit := - 1\<rparr>) db = sort_key order_key (candidates query options db)"
    by (simp add: searchCode_candidates c)
  show ?thesis
    using sorted_order_key_nth[OF sorted_searchCode, of _ _ query options db]
          sorted_searchCode[of query "options\<lparr>opt_limit := - 1\<rparr>" db]
    by (simp add: a) (simp add: searchCode_candidates)
qed


theorem search_order_witness:
  "map (\<lambda>r. ce_name (sr_entry r)) (searchCode ''auth'' (all_opts\<lparr>opt_limit := 2\<rparr>) tie_db)
     = [''auth'', ''authA'']
   \<and> ce_name (sr_entry (searchCode ''auth'' (all_opts\<lparr>opt_limit := 2\<rparr>) tie_db ! 0))
       \<le> ce_name (sr_entry (searchCode ''auth'' (all_opts\<lparr>opt_limit := 2\<rparr>) tie_db ! 1))"
proof -
  let ?rs = "searchCode ''auth'' (all_opts\<lparr>opt_limit := 2\<rparr>) tie_db"
  have n: "map (\<lambda>r. ce_name (sr_entry r)) ?rs = [''auth'', ''authA'']"
    by code_simp
  have l: "(0::nat) < 1 \<and> 1 < length ?rs"
    by code_simp
  have e: "\<not> sr_relevance (?rs ! 1) < sr_relevance (?rs ! 0)"
    by code_simp
  from search_order[of "''auth''" "all_opts\<lparr>opt_limit := 2\<rparr>" tie_db] l e
  have "ce_name (sr_entry (?rs ! 0)) \<le> ce_name (sr_entry (?rs ! 1))"
    by blast
  with n show ?thesis by blast
qed

text \<open>
  C9, as the code has it: no result has the relevance 10. A row is a result only when the
  name, the keywords or the snippet of its entry matches, so its relevance is 100, 50 or
  25; an entry that the query matches only in its code is not a result.
\<close>

theorem fallback_tier_unreachable:
  "r \<in> set (searchCode query options db) \<Longrightarrow>
     (sr_relevance r = 100 \<or> sr_relevance r = 50 \<or> sr_relevance r = 25)
     \<and> (like (''%'' @ query @ ''%'') (ce_name (sr_entry r))
        \<or> like (''%'' @ query @ ''%'') (ce_keywords (sr_entry r))
        \<or> like (''%'' @ query @ ''%'') (ce_snippet (sr_entry r)))"
proof -
  assume r: "r \<in> set (searchCode query options db)"
  from candidates_row[OF searchCode_subset[OF r]]
  obtain p where 1: "sr_relevance r = relevance_of query (sr_entry r)"
    and 2: "where_clause query options (sr_entry r) p" by blast
  from 2 have "like (''%'' @ query @ ''%'') (ce_name (sr_entry r))
        \<or> like (''%'' @ query @ ''%'') (ce_keywords (sr_entry r))
        \<or> like (''%'' @ query @ ''%'') (ce_snippet (sr_entry r))"
    unfolding where_clause_def Let_def by blast
  then show ?thesis using 1 unfolding relevance_of_def Let_def by auto
qed



theorem fallback_tier_unreachable_witness:
  "hd (searchCode ''auth'' all_opts auth_db) \<in> set (searchCode ''auth'' all_opts auth_db)
   \<and> (sr_relevance (hd (searchCode ''auth'' all_opts auth_db)) = 100
      \<or> sr_relevance (hd (searchCode ''auth'' all_opts auth_db)) = 50
      \<or> sr_relevance (hd (searchCode ''auth'' all_opts auth_db)) = 25)"
proof -
  have m: "hd (searchCode ''auth'' all_opts auth_db) \<in> set (searchCode ''auth'' all_opts auth_db)"
    by code_simp
  from fallback_tier_unreachable[OF m] m show ?thesis by blast
qed

text \<open>
  C9, as the claim states it, fails: the query \<open>+ 1\<close> occurs in the code of the entry
  below, beyond its snippet of 200 characters, and not in its name, keywords or snippet,
  which is the tier of 10; the search does not return the entry.
\<close>

theorem fallback_tier_counterexample:
  "occurs_ci ''+ 1'' (ce_code (mk_entry 1 ''f'' [] long_code))
   \<and> length (ce_snippet (mk_entry 1 ''f'' [] long_code)) = 200
   \<and> tier_score ''+ 1'' (mk_entry 1 ''f'' [] long_code) = 10
   \<and> searchCode ''+ 1'' all_opts (db_of [mk_entry 1 ''f'' [] long_code]) = []"
  by code_simp

section \<open>Re-indexing and errors\<close>

text \<open>
  The id that \<open>addProject\<close> returns is a fresh one, so the \<open>clearProjectEntries\<close> that
  follows it in \<open>indexProject\<close> deletes nothing.
\<close>

lemma addProject_entries:
  "addProject n path now db = Inr (pid, db1) \<Longrightarrow>
   code_entries db1 = code_entries db \<and> pid = Suc (fold max (map p_id (projects db)) (projects_seq db))"
  by (auto simp: addProject_def Let_def next_id_def split: if_splits)

lemma clear_after_addProject:
  assumes "ids_in_range db" and "addProject n path now db = Inr (pid, db1)"
  shows "code_entries (clearProjectEntries pid db1) = code_entries db"
proof -
  from addProject_entries[OF assms(2)]
  have e: "code_entries db1 = code_entries db"
    and p: "pid = Suc (fold max (map p_id (projects db)) (projects_seq db))" by simp_all
  have "\<forall>x \<in> set (code_entries db). ce_project_id x \<noteq> pid"
    using assms(1) p by (auto simp: ids_in_range_def list_all_iff)
  then show ?thesis by (simp add: clearProjectEntries_def e)
qed


text \<open>
  C2 on the code. A project \<open>p\<close> with the one file \<open>function f() {}\<close> is indexed into an
  empty store, then indexed again under the same name. With foreign keys not enforced the
  second run succeeds: the project row is replaced by one with the id 2, the entry of the
  first run (id 1, project 1) is still stored and \<open>getCode 1\<close> still returns it, and the
  unit \<open>f\<close> is stored twice. With foreign keys enforced the second run fails in
  \<open>addProject\<close> and the store keeps the entries of the first run.
\<close>

theorem reindex_keeps_old_entries:
  "(case indexProject (sample_env ''function f() {}'') ''/w/p'' (name_only ''p'') (empty_db False) of
      Inl err \<Rightarrow> False
    | Inr (res1, db1) \<Rightarrow>
        map (\<lambda>e. (ce_id e, ce_project_id e, ce_name e)) (code_entries db1) = [(1, 1, ''f'')]
        \<and> (case indexProject (sample_env ''function f() {}'') ''/w/p'' (name_only ''p'') db1 of
              Inl err \<Rightarrow> False
            | Inr (res2, db2) \<Rightarrow>
                map (\<lambda>p. (p_id p, p_name p)) (projects db2) = [(2, ''p'')]
                \<and> map (\<lambda>e. (ce_id e, ce_project_id e, ce_name e)) (code_entries db2)
                    = [(1, 1, ''f''), (2, 2, ''f'')]
                \<and> getCode 1 db2 = Inr ''function f() {}''))
   \<and> (case indexProject (sample_env ''function f() {}'') ''/w/p'' (name_only ''p'') (empty_db True) of
         Inl err \<Rightarrow> False
       | Inr (res1, db1) \<Rightarrow>
           indexProject (sample_env ''function f() {}'') ''/w/p'' (name_only ''p'') db1
             = Inl (ForeignKeyConstraintFailed, db1))"
  by code_simp


text \<open>
  The errors of \<open>updateProject\<close>, \<open>removeProject\<close> and \<open>getCode\<close>: a missing project or
  entry is a not-found error that leaves the store as it was; an entry or project that
  exists is read or removed without error; and updating a project that exists succeeds
  when the store does not enforce foreign keys.
\<close>

lemma not_found_no_effect:
  "getProject n db = None \<Longrightarrow> updateProject ev n db = Inl (ProjectNotFound n, db)"
  "getProject n db = None \<Longrightarrow> removeProject n db = Inl (ProjectNotFound n, db)"
  "getCodeEntry i db = None \<Longrightarrow> getCode i db = Inl CodeEntryNotFound"
  by (simp_all add: updateProject_def removeProject_def getCode_def)

lemma found_no_error:
  "getCodeEntry i db = Some e \<Longrightarrow> getCode i db = Inr (ce_code e)"
  "getProject n db = Some p \<Longrightarrow> \<exists>db'. removeProject n db = Inr db'"
  by (simp_all add: removeProject_def getCode_def)

lemma addCodeEntry_no_fk:
  "\<not> foreign_keys db \<Longrightarrow> \<exists>i db'. addCodeEntry e db = Inr (i, db') \<and> \<not> foreign_keys db'"
  by (simp add: addCodeEntry_def Let_def)

lemma addUnits_no_fk:
  "\<not> foreign_keys db \<Longrightarrow>
   \<exists>db' k. addUnits t pid file us (db, found) = Inr (db', k) \<and> \<not> foreign_keys db'"
proof (induction us arbitrary: db found)
  case Nil
  then show ?case by simp
next
  case (Cons u us)
  from addCodeEntry_no_fk[OF Cons.prems, of "entry_of t pid file u"]
  obtain i db1 where a: "addCodeEntry (entry_of t pid file u) db = Inr (i, db1)" and f: "\<not> foreign_keys db1"
    by blast
  from Cons.IH[OF f, of "Suc found"] a show ?case by simp
qed

lemma indexFiles_no_fk:
  "\<not> foreign_keys db \<Longrightarrow>
   \<exists>db' a b c. indexFiles ev path pid files (db, ff, cf, pe) = Inr (db', a, b, c)"
proof (induction files arbitrary: db ff cf pe)
  case Nil
  then show ?case by simp
next
  case (Cons x xs)
  let ?content = "env_readFileSync ev (env_join ev path x)"
  from addUnits_no_fk[OF Cons.prems, of "''function''" pid x "extractFunctions ?content" ff]
  obtain db1 k1 where 1: "addUnits ''function'' pid x (extractFunctions ?content) (db, ff) = Inr (db1, k1)"
    and f1: "\<not> foreign_keys db1" by blast
  from addUnits_no_fk[OF f1, of "''class''" pid x "extractClasses ?content" cf]
  obtain db2 k2 where 2: "addUnits ''class'' pid x (extractClasses ?content) (db1, cf) = Inr (db2, k2)"
    and f2: "\<not> foreign_keys db2" by blast
  from Cons.IH[OF f2, of k1 k2 "pe + length (extractPatterns ?content)"] 1 2
  show ?case by (simp add: Let_def)
qed

lemma indexProject_no_fk:
  "\<not> foreign_keys db \<Longrightarrow> \<exists>res db'. indexProject ev path options db = Inr (res, db')"
proof -
  assume f: "\<not> foreign_keys db"
  let ?n = "case opt_name options of None \<Rightarrow> env_basename ev path
            | Some n \<Rightarrow> if n = [] then env_basename ev path else n"
  let ?files = "env_fg ev file_patterns path
                 ([''**/node_modules/**'', ''**/dist/**'', ''**/build/**'', ''**/.git/**'',
                   ''**/coverage/**'']
                  @ (case opt_exclude options of None \<Rightarrow> []
                     | Some x \<Rightarrow> if x = [] then [] else split CHR '','' x))"
  from f obtain pid db1 where a: "addProject ?n path (env_now ev) db = Inr (pid, db1)"
    and f1: "\<not> foreign_keys db1"
    by (auto simp: addProject_def Let_def)
  have f2: "\<not> foreign_keys (clearProjectEntries pid db1)" using f1 by (simp add: clearProjectEntries_def)
  from indexFiles_no_fk[OF f2, of ev path pid ?files 0 0 0]
  obtain db3 a3 b3 c3 where
    i: "indexFiles ev path pid ?files (clearProjectEntries pid db1, 0, 0, 0) = Inr (db3, a3, b3, c3)"
    by blast
  show ?thesis
    unfolding indexProject_def Let_def using a i by simp
qed

lemma updateProject_found_no_fk:
  "\<not> foreign_keys db \<Longrightarrow> getProject n db = Some p \<Longrightarrow> \<exists>db'. updateProject ev n db = Inr db'"
  using indexProject_no_fk[of db ev "p_path p" "\<lparr>opt_name = Some n, opt_recursive = None, opt_exclude = None\<rparr>"]
  by (auto simp: updateProject_def)


text \<open>
  C8 on the code. With foreign keys enforced, updating the project \<open>p\<close>, which exists and
  has one entry, fails: \<open>addProject\<close> replaces the project's row while the entry refers
  to it, and the store raises its constraint error, which is not a not-found error.
\<close>

theorem updateProject_existing_raises:
  "(case indexProject (sample_env ''function f() {}'') ''/w/p'' (name_only ''p'') (empty_db True) of
      Inl err \<Rightarrow> False
    | Inr (res, db1) \<Rightarrow>
        map p_name (projects db1) = [''p'']
        \<and> updateProject (sample_env ''function f() {}'') ''p'' db1
            = Inl (ForeignKeyConstraintFailed, db1))"
  by code_simp

end
